theory Spec2Isabelle
  imports Main
begin

unbundle bit_operations_syntax

section \<open>Contamination checker (ccheck.cc): data model\<close>

text \<open>
  C strings (\<^verbatim>\<open>const char*\<close>) are modelled as the list of the characters that precede the
  terminating NUL; a pointer into a string is the remaining suffix, \<^verbatim>\<open>*p\<close> being
  non-zero exactly when the suffix is not empty. The \<^verbatim>\<open>int\<close> variables are coordinates and
  counts that only ever grow by one per symbol or fragment read, so they stay far from
  overflow (which is undefined for \<^verbatim>\<open>int\<close>); they are modelled as \<^typ>\<open>int\<close>.
\<close>

datatype Strength = weak | effective | strong

text \<open>The numeric value of the enumerators, for the comparisons \<^verbatim>\<open>strength > weak\<close>.\<close>

fun strength_rank :: "Strength \<Rightarrow> nat" where
  "strength_rank weak = 0"
| "strength_rank effective = 1"
| "strength_rank strong = 2"

record Dp =
  consensus :: char
  assembly :: char
  contaminant :: char
  strength :: Strength

text \<open>
  \<^verbatim>\<open>typedef std::map< int, Dp > dp_list\<close>: an ordered container with unique keys,
  modelled as an association list kept in increasing key order.
\<close>

type_synonym dp_list = "(int \<times> Dp) list"

datatype whatsit = unknown | clean | dirt | conflict | nonsense | maxwhatsits

subsection \<open>Character helpers\<close>

text \<open>\<^verbatim>\<open>a & ~32\<close> on a character: bit 5 is cleared, the other bits are kept.\<close>

definition and_not_32 :: "char \<Rightarrow> char" where
  "and_not_32 a = (case a of Char b0 b1 b2 b3 b4 b5 b6 b7 \<Rightarrow> Char b0 b1 b2 b3 b4 False b6 b7)"

text \<open>The C library's \<^verbatim>\<open>toupper\<close> in the C locale: only \<^verbatim>\<open>a\<close> to \<^verbatim>\<open>z\<close> change.\<close>

definition toupper :: "char \<Rightarrow> char" where
  "toupper c = (if 97 \<le> (of_char c :: nat) \<and> (of_char c :: nat) \<le> 122 then and_not_32 c else c)"

subsection \<open>Diagnostic predicates\<close>

text \<open>
  \<^verbatim>\<open>compatible\<close> and \<^verbatim>\<open>char_to_bitmap\<close> come from the headers that \<^verbatim>\<open>ccheck.cc\<close> includes
  (\<^verbatim>\<open>myers_align.h\<close>, \<^verbatim>\<open>mia.h\<close>), not from \<^verbatim>\<open>ccheck.cc\<close> itself; the functions that call
  them take them as the parameters \<open>compatible\<close> and \<open>bm\<close>.
\<close>

definition is_strongly_diagnostic :: "(char \<Rightarrow> char \<Rightarrow> bool) \<Rightarrow> char \<Rightarrow> char \<Rightarrow> bool" where
  "is_strongly_diagnostic compatible aln1 aln2 =
     (aln1 \<noteq> CHR ''-'' \<and> aln2 \<noteq> CHR ''-'' \<and> \<not> compatible aln1 aln2)"

definition is_weakly_diagnostic :: "char \<Rightarrow> char \<Rightarrow> bool" where
  "is_weakly_diagnostic aln1 aln2 =
     (aln1 \<noteq> CHR ''-'' \<and> aln2 \<noteq> CHR ''-'' \<and> toupper aln1 \<noteq> toupper aln2)"

definition is_transversion :: "char \<Rightarrow> char \<Rightarrow> bool" where
  "is_transversion a b =
     (let u = and_not_32 a; v = and_not_32 b in
      if u = CHR ''A'' then v \<noteq> CHR ''G''
      else if u = CHR ''C'' then v \<noteq> CHR ''T''
      else if u = CHR ''G'' then v \<noteq> CHR ''A''
      else if u = CHR ''T'' \<or> u = CHR ''U'' then v \<noteq> CHR ''C''
      else False)"

definition consistent :: "(char \<Rightarrow> int) \<Rightarrow> bool \<Rightarrow> char \<Rightarrow> char \<Rightarrow> bool" where
  "consistent bm adna x y =
     (let x' = (if x = CHR ''G'' then CHR ''R'' else if x = CHR ''C'' then CHR ''Y''
                else if x = CHR ''g'' then CHR ''r'' else if x = CHR ''c'' then CHR ''y'' else x)
      in x = CHR ''-'' \<or> y = CHR ''-'' \<or> (bm (if adna then x' else x) AND bm y) \<noteq> 0)"

subsection \<open>Classes and their merge\<close>

definition merge_whatsit :: "whatsit \<Rightarrow> whatsit \<Rightarrow> whatsit" where
  "merge_whatsit a b =
     (if a = b then a
      else if a = unknown then b
      else if b = unknown then a
      else if a = nonsense \<or> b = nonsense then nonsense
      else conflict)"

subsection \<open>The index of diagnostic positions\<close>

text \<open>
  \<^verbatim>\<open>l[index]\<close> of \<^verbatim>\<open>std::map\<close> finds the entry of the key or inserts a value-initialised
  one at its place in the key order; \<open>dp_index k f l\<close> is \<^verbatim>\<open>l[k] = f (l[k])\<close>.
\<close>

definition Dp_init :: Dp where
  "Dp_init = \<lparr>consensus = CHR 0x00, assembly = CHR 0x00, contaminant = CHR 0x00, strength = weak\<rparr>"

fun dp_index :: "int \<Rightarrow> (Dp \<Rightarrow> Dp) \<Rightarrow> dp_list \<Rightarrow> dp_list" where
  "dp_index k f [] = [(k, f Dp_init)]"
| "dp_index k f ((k', d) # l) =
     (if k < k' then (k, f Dp_init) # (k', d) # l
      else if k = k' then (k', f d) # l
      else (k', d) # dp_index k f l)"

text \<open>
  The loop \<^verbatim>\<open>while( index != span_from && *aln1 && *aln2 )\<close> that moves to an assembly
  coordinate; \<^verbatim>\<open>main\<close> runs the same loop on \<^verbatim>\<open>ass_pos\<close>, \<^verbatim>\<open>paln1\<close>, \<^verbatim>\<open>paln2\<close> in both passes.
\<close>

fun skip_to :: "int \<Rightarrow> int \<Rightarrow> string \<Rightarrow> string \<Rightarrow> int \<times> string \<times> string" where
  "skip_to index span_from (a # aln1) (b # aln2) =
     (if index \<noteq> span_from
      then skip_to (if b \<noteq> CHR ''-'' then index + 1 else index) span_from aln1 aln2
      else (index, a # aln1, b # aln2))"
| "skip_to index span_from aln1 aln2 = (index, aln1, aln2)"

text \<open>The second loop of \<^verbatim>\<open>mk_dp_list\<close>.\<close>

fun dp_scan :: "(char \<Rightarrow> char \<Rightarrow> bool) \<Rightarrow> dp_list \<Rightarrow> int \<Rightarrow> int \<Rightarrow> string \<Rightarrow> string \<Rightarrow> dp_list" where
  "dp_scan compatible l index span_to (a # aln1) (b # aln2) =
     (if index \<noteq> span_to
      then dp_scan compatible
             (if is_weakly_diagnostic a b
              then dp_index index
                     (\<lambda>d. d\<lparr>consensus := a, assembly := b,
                            strength := (if is_strongly_diagnostic compatible a b then strong else weak)\<rparr>) l
              else l)
             (if b \<noteq> CHR ''-'' then index + 1 else index) span_to aln1 aln2
      else l)"
| "dp_scan compatible l index span_to aln1 aln2 = l"

definition mk_dp_list :: "(char \<Rightarrow> char \<Rightarrow> bool) \<Rightarrow> string \<Rightarrow> string \<Rightarrow> int \<Rightarrow> int \<Rightarrow> dp_list" where
  "mk_dp_list compatible aln1 aln2 span_from span_to =
     (case skip_to 0 span_from aln1 aln2 of
        (index, aln1', aln2') \<Rightarrow> dp_scan compatible [] index span_to aln1' aln2')"

text \<open>
  The column of an alignment that carries assembly coordinate \<open>c\<close>: the column whose
  assembly symbol is the \<open>c\<close>-th symbol of the second row that is not a gap (counting
  from 0). This is the notion the description of the index is stated with; the code has
  no such function.
\<close>

fun column_at :: "string \<Rightarrow> string \<Rightarrow> nat \<Rightarrow> (char \<times> char) option" where
  "column_at (a # aln1) (b # aln2) c =
     (if b = CHR ''-'' then column_at aln1 aln2 c
      else (case c of 0 \<Rightarrow> Some (a, b) | Suc c' \<Rightarrow> column_at aln1 aln2 c'))"
| "column_at aln1 aln2 c = None"

text \<open>
  Modelled from the spec: the bodies of \<^verbatim>\<open>char_to_bitmap\<close> and \<^verbatim>\<open>compatible\<close> are in headers
  outside \<^verbatim>\<open>ccheck.cc\<close>; the spec speaks of the ambiguity-code bitmask of a symbol, of two symbols sharing a common
  base, and of \<^verbatim>\<open>N\<close> overlapping everything. \<open>iupac_bitmap\<close> is the IUPAC table (A = 1, C = 2,
  G = 4, T and U = 8, case ignored) and is used only to instantiate the parameters at
  concrete inputs.
\<close>

definition iupac_bitmap :: "char \<Rightarrow> int" where
  "iupac_bitmap x =
     (let u = and_not_32 x in
      if u = CHR ''A'' then 1 else if u = CHR ''C'' then 2 else if u = CHR ''G'' then 4
      else if u = CHR ''T'' \<or> u = CHR ''U'' then 8
      else if u = CHR ''M'' then 3 else if u = CHR ''R'' then 5 else if u = CHR ''S'' then 6
      else if u = CHR ''V'' then 7 else if u = CHR ''W'' then 9 else if u = CHR ''Y'' then 10
      else if u = CHR ''H'' then 11 else if u = CHR ''K'' then 12 else if u = CHR ''D'' then 13
      else if u = CHR ''B'' then 14 else if u = CHR ''N'' then 15 else 0)"

definition iupac_compatible :: "char \<Rightarrow> char \<Rightarrow> bool" where
  "iupac_compatible x y = ((iupac_bitmap x AND iupac_bitmap y) \<noteq> 0)"

text \<open>
  The entry that the description of the index promises for a column: none unless the column
  is weakly diagnostic, otherwise the two symbols of the column, no contaminant base, and
  strength strong exactly when the column is strongly diagnostic.
\<close>

definition column_entry :: "(char \<Rightarrow> char \<Rightarrow> bool) \<Rightarrow> (char \<times> char) option \<Rightarrow> Dp option" where
  "column_entry compatible col =
     (case col of
        None \<Rightarrow> None
      | Some (a, b) \<Rightarrow>
          if is_weakly_diagnostic a b
          then Some \<lparr>consensus = a, assembly = b, contaminant = CHR 0x00,
                     strength = (if is_strongly_diagnostic compatible a b then strong else weak)\<rparr>
          else None)"

text \<open>
  \<^verbatim>\<open>l.find(k)\<close> is \<open>map_of l k\<close>; an assignment through the iterator it returns is
  \<open>dp_modify\<close>. \<^verbatim>\<open>l.lower_bound(x)\<close> is the suffix of the entries whose key is at least \<open>x\<close>,
  and \<^verbatim>\<open>std::distance\<close> of two such iterators the difference of what is left behind them.
\<close>

fun dp_modify :: "int \<Rightarrow> (Dp \<Rightarrow> Dp) \<Rightarrow> dp_list \<Rightarrow> dp_list" where
  "dp_modify k f [] = []"
| "dp_modify k f ((k', d) # l) = (if k = k' then (k', f d) # l else (k', d) # dp_modify k f l)"

definition lower_bound :: "dp_list \<Rightarrow> int \<Rightarrow> dp_list" where
  "lower_bound l x = dropWhile (\<lambda>(k, d). k < x) l"

definition distance :: "dp_list \<Rightarrow> dp_list \<Rightarrow> int" where
  "distance left right = int (length left) - int (length right)"

subsection \<open>Fragments\<close>

text \<open>
  The fields of \<^verbatim>\<open>AlnSeq\<close> that \<^verbatim>\<open>main\<close> reads (\<^verbatim>\<open>id\<close>, \<^verbatim>\<open>segment\<close>, \<^verbatim>\<open>start\<close>, \<^verbatim>\<open>end\<close>, \<^verbatim>\<open>seq\<close>,
  \<^verbatim>\<open>ins\<close>); a \<^verbatim>\<open>NULL\<close> insertion is the empty string.
\<close>

record AlnSeq =
  seq_id :: string
  segment :: char
  seq_start :: int
  seq_end :: int
  seq :: string
  ins :: "string list"

record cached_pwaln =
  pw_start :: int
  ref_seq :: string
  frag_seq :: string

definition overlapped_diagnostic_positions :: "dp_list \<Rightarrow> AlnSeq \<Rightarrow> dp_list \<times> dp_list" where
  "overlapped_diagnostic_positions l s =
     (lower_bound l (seq_start s), lower_bound l (seq_end s + 1))"

fun lift_over_from :: "int \<Rightarrow> string \<Rightarrow> string \<Rightarrow> int \<Rightarrow> int \<Rightarrow> string" where
  "lift_over_from p (a # aln1) (b # aln2) s e =
     (if p < e
      then (if a \<noteq> CHR ''-'' \<and> p \<ge> s then [a] else [])
           @ lift_over_from (if b \<noteq> CHR ''-'' then p + 1 else p) aln1 aln2 s e
      else [])"
| "lift_over_from p aln1 aln2 s e = []"

definition lift_over :: "string \<Rightarrow> string \<Rightarrow> int \<Rightarrow> int \<Rightarrow> string" where
  "lift_over aln1 aln2 s e = lift_over_from 0 aln1 aln2 s e"

definition sanity_check_sequence :: "string \<Rightarrow> bool" where
  "sanity_check_sequence s = list_all (\<lambda>c. toupper c \<in> set ''ACGTBDHVMKYRSWUN'') s"

definition fixup_name :: "string \<Rightarrow> string" where
  "fixup_name p =
     (let n = length p in
      if n > 3 \<and> (p ! (n - 1) = CHR ''b'' \<or> p ! (n - 1) = CHR ''f'') \<and> p ! (n - 2) = CHR ''_''
      then (if p ! (n - 3) = CHR '','' then take (n - 3) p else take (n - 2) p)
      else p)"

definition fixup :: "AlnSeq \<Rightarrow> AlnSeq" where
  "fixup s = s\<lparr>seq_id := fixup_name (seq_id s)\<rparr>"

text \<open>The read without its gaps and with its insertions, and the window as the aligner gets it.\<close>

fun the_read :: "string \<Rightarrow> string list \<Rightarrow> string" where
  "the_read [] is = []"
| "the_read (nt # nts) is =
     (if nt \<noteq> CHR ''-'' then [nt] else []) @ (case is of [] \<Rightarrow> [] | i # _ \<Rightarrow> i)
     @ the_read nts (tl is)"

definition ref_for_mia :: "string \<Rightarrow> string" where
  "ref_for_mia lifted =
     map (\<lambda>c. if toupper c = CHR ''A'' \<or> toupper c = CHR ''C'' \<or> toupper c = CHR ''G''
                 \<or> toupper c = CHR ''T''
               then toupper c else CHR ''N'') lifted"

text \<open>\<^verbatim>\<open>lifted.substr( 0, n )\<close> with an \<^verbatim>\<open>int\<close> \<open>n\<close>: a negative \<open>n\<close> converts to a huge size.\<close>

definition substr0 :: "string \<Rightarrow> int \<Rightarrow> string" where
  "substr0 str n = (if n < 0 then str else take (nat n) str)"

subsection \<open>The walk of a fragment along the global alignment\<close>

text \<open>
  \<^verbatim>\<open>do { p++ ; q++ ; } while( *p == '-' )\<close>. The walk calls it with \<open>p\<close> not at its
  terminator. A pointer that would leave its string (undefined in C) stays at the terminator.
\<close>

fun advance :: "string \<Rightarrow> string \<Rightarrow> string \<times> string" where
  "advance (x # c # p) q = (if c = CHR ''-'' then advance (c # p) (tl q) else (c # p, tl q))"
| "advance p q = (tl p, tl q)"

text \<open>
  The loop \<^verbatim>\<open>while( ass_pos != (*s)->end +1 && *paln1 && ... )\<close>, which is the same text in
  both passes but for what is done at a weakly diagnostic column: \<open>visit\<close>, applied to the
  assembly coordinate and to the two calls of the fragment, \<^verbatim>\<open>*in_frag_v_ref\<close> and
  \<^verbatim>\<open>*in_frag_v_ass\<close>. \<open>end1\<close> is \<^verbatim>\<open>(*s)->end + 1\<close>.
\<close>

fun walk :: "(int \<Rightarrow> char \<Rightarrow> char \<Rightarrow> 'st \<Rightarrow> 'st) \<Rightarrow> int \<Rightarrow> int \<Rightarrow> string \<Rightarrow> string
    \<Rightarrow> string \<Rightarrow> string \<Rightarrow> string \<Rightarrow> string \<Rightarrow> 'st \<Rightarrow> 'st" where
  "walk visit end1 ass_pos (p1 # paln1) (p2 # paln2) in_ref in_frag_v_ref in_ass in_frag_v_ass st =
     (if ass_pos \<noteq> end1 \<and> in_ref \<noteq> [] \<and> in_ass \<noteq> [] \<and> in_frag_v_ass \<noteq> [] \<and> in_frag_v_ref \<noteq> []
      then
        (let st' = (if is_weakly_diagnostic p1 p2
                    then visit ass_pos (hd in_frag_v_ref) (hd in_frag_v_ass) st else st);
             r = (if p1 \<noteq> CHR ''-'' then advance in_ref in_frag_v_ref else (in_ref, in_frag_v_ref));
             a = (if p2 \<noteq> CHR ''-'' then advance in_ass in_frag_v_ass else (in_ass, in_frag_v_ass))
         in walk visit end1 (if p2 \<noteq> CHR ''-'' then ass_pos + 1 else ass_pos) paln1 paln2
              (fst r) (snd r) (fst a) (snd a) st')
      else st)"
| "walk visit end1 ass_pos paln1 paln2 in_ref in_frag_v_ref in_ass in_frag_v_ass st = st"

subsection \<open>Pass one\<close>

text \<open>What pass one does at a weakly diagnostic column, \<open>fr\<close> and \<open>fa\<close> being the two calls.\<close>

definition pass1_evidence :: "(char \<Rightarrow> int) \<Rightarrow> bool \<Rightarrow> int \<Rightarrow> char \<Rightarrow> char \<Rightarrow> dp_list \<Rightarrow> dp_list" where
  "pass1_evidence bm adna ass_pos fr fa l =
     (case map_of l ass_pos of
        None \<Rightarrow> l
      | Some d \<Rightarrow>
          if fr \<noteq> fa then l
          else
            (let maybe_clean = consistent bm adna (assembly d) fa;
                 maybe_dirt = consistent bm adna (consensus d) fr
             in if \<not> maybe_clean \<and> maybe_dirt \<and> strength d = weak
                then dp_modify ass_pos (\<lambda>d. d\<lparr>contaminant := fr, strength := effective\<rparr>) l
                else l))"

text \<open>
  One fragment in pass one. The local aligner (\<^verbatim>\<open>dyn_prog\<close> and the calls around it) is the
  parameter \<open>mia\<close>, from the window and the read to the start offset and the two aligned
  rows. \<open>ref\<close> is \<^verbatim>\<open>maln->ref->seq\<close>.
\<close>

definition pass1_frag :: "(char \<Rightarrow> int) \<Rightarrow> bool \<Rightarrow> (string \<Rightarrow> string \<Rightarrow> cached_pwaln) \<Rightarrow> string \<Rightarrow> string
    \<Rightarrow> string \<Rightarrow> AlnSeq \<Rightarrow> dp_list \<Rightarrow> dp_list \<times> cached_pwaln" where
  "pass1_frag bm adna mia aln_con aln_ass ref s l =
     (let lifted = lift_over aln_con aln_ass (seq_start s) (seq_end s + 2);
          pwaln = mia (ref_for_mia lifted) (the_read (seq s) (ins s));
          in_ref = substr0 lifted (pw_start pwaln) @ ref_seq pwaln
      in case skip_to 0 (seq_start s) aln_con aln_ass of
           (ass_pos, paln1, paln2) \<Rightarrow>
             (walk (pass1_evidence bm adna) (seq_end s + 1) ass_pos paln1 paln2
                in_ref (frag_seq pwaln) (drop (nat (seq_start s)) ref) (seq s) l,
              pwaln))"

fun pass1 :: "(char \<Rightarrow> int) \<Rightarrow> bool \<Rightarrow> (string \<Rightarrow> string \<Rightarrow> cached_pwaln) \<Rightarrow> string \<Rightarrow> string
    \<Rightarrow> string \<Rightarrow> AlnSeq list \<Rightarrow> dp_list \<Rightarrow> dp_list \<times> cached_pwaln list" where
  "pass1 bm adna mia aln_con aln_ass ref [] l = (l, [])"
| "pass1 bm adna mia aln_con aln_ass ref (s # ss) l =
     (case pass1_frag bm adna mia aln_con aln_ass ref s l of
        (l', pwaln) \<Rightarrow>
          (case pass1 bm adna mia aln_con aln_ass ref ss l' of
             (l'', cached_pwalns) \<Rightarrow> (l'', pwaln # cached_pwalns)))"

text \<open>The loop that erases every entry that is still weak.\<close>

fun prune_weak :: "dp_list \<Rightarrow> dp_list" where
  "prune_weak [] = []"
| "prune_weak ((k, d) # l) = (if strength d = weak then prune_weak l else (k, d) # prune_weak l)"

text \<open>
  The ratchet of pass one, as the description has it: an entry either stays as it is, or
  it was weak and has become effective, with only its contaminant base set.
\<close>

definition ratchet :: "Dp \<Rightarrow> Dp \<Rightarrow> bool" where
  "ratchet d d' =
     (d' = d \<or> (strength d = weak \<and> strength d' = effective
                 \<and> consensus d' = consensus d \<and> assembly d' = assembly d))"

subsection \<open>Pass two\<close>

definition update_class :: "whatsit \<times> int \<Rightarrow> bool \<Rightarrow> bool \<Rightarrow> whatsit \<times> int" where
  "update_class kv maybe_clean maybe_dirt =
     (case kv of (klass, votes) \<Rightarrow>
        (let k1 = (if maybe_clean \<and> \<not> maybe_dirt \<and> klass = unknown then clean else klass);
             k2 = (if maybe_clean \<and> \<not> maybe_dirt \<and> k1 = dirt then conflict else k1);
             k3 = (if \<not> maybe_clean \<and> maybe_dirt \<and> k2 = unknown then dirt else k2);
             k4 = (if \<not> maybe_clean \<and> maybe_dirt \<and> k3 = clean then conflict else k3);
             k5 = (if \<not> maybe_clean \<and> \<not> maybe_dirt then nonsense else k4)
         in (k5, if maybe_clean \<noteq> maybe_dirt then votes + 1 else votes)))"

text \<open>
  What pass two does at a weakly diagnostic column. The state is the strong-only tally
  (\<^verbatim>\<open>klass\<close>, \<^verbatim>\<open>votes\<close>) and the tally over all positions (\<^verbatim>\<open>klass2\<close>, \<^verbatim>\<open>votes2\<close>).
\<close>

type_synonym verdicts = "(whatsit \<times> int) \<times> (whatsit \<times> int)"

definition pass2_evidence :: "(char \<Rightarrow> int) \<Rightarrow> bool \<Rightarrow> dp_list \<Rightarrow> int \<Rightarrow> char \<Rightarrow> char \<Rightarrow> verdicts \<Rightarrow> verdicts" where
  "pass2_evidence bm adna l ass_pos fr fa v =
     (case map_of l ass_pos of
        None \<Rightarrow> v
      | Some d \<Rightarrow>
          if fr \<noteq> fa then v
          else
            (let maybe_clean = consistent bm adna (assembly d) fa;
                 maybe_dirt = consistent bm adna (consensus d) fr
             in (if strength d = strong then update_class (fst v) maybe_clean maybe_dirt else fst v,
                 update_class (snd v) maybe_clean (maybe_dirt \<and> \<not> maybe_clean))))"

definition pass2_frag :: "(char \<Rightarrow> int) \<Rightarrow> bool \<Rightarrow> int \<Rightarrow> string \<Rightarrow> string \<Rightarrow> string \<Rightarrow> dp_list
    \<Rightarrow> AlnSeq \<Rightarrow> cached_pwaln \<Rightarrow> verdicts" where
  "pass2_frag bm adna min_diag_posns aln_con aln_ass ref l s cpwaln =
     (case overlapped_diagnostic_positions l s of
        (left, right) \<Rightarrow>
          if distance left right < min_diag_posns then ((unknown, 0), (unknown, 0))
          else
            (let lifted = lift_over aln_con aln_ass (seq_start s) (seq_end s + 1);
                 in_ref = substr0 lifted (pw_start cpwaln) @ ref_seq cpwaln
             in case skip_to 0 (seq_start s) aln_con aln_ass of
                  (ass_pos, paln1, paln2) \<Rightarrow>
                    walk (pass2_evidence bm adna l) (seq_end s + 1) ass_pos paln1 paln2
                      in_ref (frag_seq cpwaln) (drop (nat (seq_start s)) ref) (seq s)
                      ((unknown, 0), (unknown, 0))))"

text \<open>
  The two maps of back halves and the two summaries. \<^verbatim>\<open>case 'f'\<close> merges the front half with
  the records found by \<^verbatim>\<open>bfrags.find\<close> (\<open>i\<close>) and \<^verbatim>\<open>bfrags2.find\<close> (\<open>i2\<close>); the two maps always
  hold the same keys, and where \<open>i2\<close> is found and \<open>i\<close> is not (the code would then
  dereference \<^verbatim>\<open>bfrags.end()\<close>) the model leaves the second tally as it is.
\<close>

record tallies =
  bfrags :: "string \<rightharpoonup> whatsit \<times> int"
  bfrags2 :: "string \<rightharpoonup> whatsit \<times> int"
  summary :: "whatsit \<Rightarrow> int"
  summary2 :: "whatsit \<Rightarrow> int"

definition front_merge :: "(whatsit \<times> int) option \<Rightarrow> (whatsit \<times> int) option \<Rightarrow> verdicts \<Rightarrow> verdicts" where
  "front_merge i i2 v =
     (case v of ((klass, votes), (klass2, votes2)) \<Rightarrow>
        ((case i of
            None \<Rightarrow> (klass, votes)
          | Some (bklass, bvotes) \<Rightarrow> (merge_whatsit klass bklass, votes + bvotes)),
         (case i2 of
            None \<Rightarrow> (klass2, votes2)
          | Some b2 \<Rightarrow>
              (case i of
                 None \<Rightarrow> (klass2, votes2)
               | Some (bklass, bvotes) \<Rightarrow> (merge_whatsit klass2 bklass, votes2 + bvotes)))))"

definition count_fragment :: "tallies \<Rightarrow> verdicts \<Rightarrow> tallies" where
  "count_fragment t v =
     t\<lparr>summary := (summary t)(fst (fst v) := summary t (fst (fst v)) + 1),
       summary2 := (summary2 t)(fst (snd v) := summary2 t (fst (snd v)) + 1)\<rparr>"

definition segment_switch :: "tallies \<Rightarrow> AlnSeq \<Rightarrow> verdicts \<Rightarrow> tallies" where
  "segment_switch t s v =
     (if segment s = CHR ''b''
      then t\<lparr>bfrags := (bfrags t)(seq_id s \<mapsto> fst v), bfrags2 := (bfrags2 t)(seq_id s \<mapsto> snd v)\<rparr>
      else if segment s = CHR ''f''
      then count_fragment t (front_merge (bfrags t (seq_id s)) (bfrags2 t (seq_id s)) v)
      else if segment s = CHR ''a'' then count_fragment t v
      else t)"

fun pass2 :: "(char \<Rightarrow> int) \<Rightarrow> bool \<Rightarrow> int \<Rightarrow> string \<Rightarrow> string \<Rightarrow> string \<Rightarrow> dp_list
    \<Rightarrow> AlnSeq list \<Rightarrow> cached_pwaln list \<Rightarrow> tallies \<Rightarrow> tallies" where
  "pass2 bm adna min_diag_posns aln_con aln_ass ref l (s # ss) (cpwaln # cpwalns) t =
     pass2 bm adna min_diag_posns aln_con aln_ass ref l ss cpwalns
       (segment_switch t s (pass2_frag bm adna min_diag_posns aln_con aln_ass ref l s cpwaln))"
| "pass2 bm adna min_diag_posns aln_con aln_ass ref l ss cpwalns t = t"

subsection \<open>One input file\<close>

text \<open>
  The options that \<^verbatim>\<open>main\<close> reads into local variables: \<^verbatim>\<open>adna\<close>, \<^verbatim>\<open>really\<close>,
  \<^verbatim>\<open>min_diag_posns\<close>, \<^verbatim>\<open>maxd\<close>, \<^verbatim>\<open>span_from\<close>, \<^verbatim>\<open>span_to\<close>.
\<close>

record config =
  opt_adna :: bool
  opt_really :: bool
  opt_min_diag_posns :: int
  opt_maxd :: int
  opt_span_from :: int
  opt_span_to :: int

text \<open>The three \<^verbatim>\<open>return 1\<close> of the loop over the input files.\<close>

datatype failure = Bad_sequence | Too_divergent | Low_evidence

fun exit_status :: "failure \<Rightarrow> int" where
  "exit_status Bad_sequence = 1"
| "exit_status Too_divergent = 1"
| "exit_status Low_evidence = 1"

definition num_strong :: "dp_list \<Rightarrow> int" where
  "num_strong l = int (length (filter (\<lambda>(k, d). strength_rank (strength d) > strength_rank weak) l))"

definition no_tallies :: tallies where
  "no_tallies = \<lparr>bfrags = Map.empty, bfrags2 = Map.empty, summary = (\<lambda>k. 0), summary2 = (\<lambda>k. 0)\<rparr>"

text \<open>Pass one, the pruning and pass two; the result is the index and the two summaries.\<close>

definition classify :: "(char \<Rightarrow> int) \<Rightarrow> (string \<Rightarrow> string \<Rightarrow> cached_pwaln) \<Rightarrow> config \<Rightarrow> string \<Rightarrow> string
    \<Rightarrow> string \<Rightarrow> AlnSeq list \<Rightarrow> dp_list \<Rightarrow> dp_list \<times> (whatsit \<Rightarrow> int) \<times> (whatsit \<Rightarrow> int)" where
  "classify bm mia cfg aln_con aln_ass ref frags l =
     (case pass1 bm (opt_adna cfg) mia aln_con aln_ass ref frags l of
        (l1, cached_pwalns) \<Rightarrow>
          (let l2 = prune_weak l1;
               t = pass2 bm (opt_adna cfg) (opt_min_diag_posns cfg) aln_con aln_ass ref l2
                     (map fixup frags) cached_pwalns no_tallies
           in (l2, summary t, summary2 t)))"

text \<open>
  The body of the loop over the input files, up to the report. The global aligner
  \<^verbatim>\<open>myers_diff\<close> is the parameter \<open>myers\<close>; it yields \<open>None\<close> where the code gets \<^verbatim>\<open>UINT_MAX\<close>.
\<close>

definition process_file :: "(char \<Rightarrow> char \<Rightarrow> bool) \<Rightarrow> (char \<Rightarrow> int) \<Rightarrow> (string \<Rightarrow> string \<Rightarrow> cached_pwaln)
    \<Rightarrow> (string \<Rightarrow> string \<Rightarrow> int \<Rightarrow> (string \<times> string) option) \<Rightarrow> config \<Rightarrow> string \<Rightarrow> string
    \<Rightarrow> AlnSeq list \<Rightarrow> failure + dp_list \<times> (whatsit \<Rightarrow> int) \<times> (whatsit \<Rightarrow> int)" where
  "process_file compatible bm mia myers cfg hum_ref ref frags =
     (if \<not> sanity_check_sequence hum_ref \<or> \<not> sanity_check_sequence ref then Inl Bad_sequence
      else
        (case myers hum_ref ref
                (if opt_maxd cfg = 0 then max (int (length hum_ref)) (int (length ref)) div 10
                 else opt_maxd cfg) of
           None \<Rightarrow> Inl Too_divergent
         | Some (aln_con, aln_ass) \<Rightarrow>
             (let l = mk_dp_list compatible aln_con aln_ass (opt_span_from cfg) (opt_span_to cfg)
              in if num_strong l < 40 \<and> \<not> opt_really cfg then Inl Low_evidence
                 else Inr (classify bm mia cfg aln_con aln_ass ref frags l))))"

text \<open>The ratchet on a whole index: the same keys in the same order, each entry ratcheted.\<close>

definition dp_ratchet :: "dp_list \<Rightarrow> dp_list \<Rightarrow> bool" where
  "dp_ratchet l l' = list_all2 (\<lambda>p q. fst q = fst p \<and> ratchet (snd p) (snd q)) l l'"

text \<open>
  The two aligners on sequences that align without gaps: each row of the alignment is the
  sequence itself, and the local alignment starts at offset 0. They stand for the
  parameters \<open>myers\<close> and \<open>mia\<close> at concrete inputs.
\<close>

definition ungapped_myers :: "string \<Rightarrow> string \<Rightarrow> int \<Rightarrow> (string \<times> string) option" where
  "ungapped_myers a b d = Some (a, b)"

definition ungapped_mia :: "string \<Rightarrow> string \<Rightarrow> cached_pwaln" where
  "ungapped_mia window read = \<lparr>pw_start = 0, ref_seq = window, frag_seq = read\<rparr>"

text \<open>Concrete inputs: a read that covers an ungapped assembly from coordinate 0.\<close>

definition example_read :: "string \<Rightarrow> char \<Rightarrow> string \<Rightarrow> AlnSeq" where
  "example_read name role calls =
     \<lparr>seq_id = name, segment = role, seq_start = 0, seq_end = int (length calls) - 1,
      seq = calls, ins = []\<rparr>"

definition example_config :: "bool \<Rightarrow> config" where
  "example_config shoot =
     \<lparr>opt_adna = False, opt_really = shoot, opt_min_diag_posns = 1, opt_maxd = 0,
      opt_span_from = 0, opt_span_to = 2147483647\<rparr>"

section \<open>Properties\<close>

subsection \<open>The merge of two classes\<close>

text \<open>
  C7. The merge of classes satisfies: \<open>merge(unknown, X) = X\<close> and
  \<open>merge(nonsensical, X) = nonsensical\<close> for every class \<open>X\<close>,
  \<open>merge(clean, clean) = clean\<close> and \<open>merge(clean, contaminant) = conflicting\<close>.
\<close>

theorem merge_whatsit_laws:
  "merge_whatsit unknown X = X
   \<and> merge_whatsit nonsense X = nonsense
   \<and> merge_whatsit clean clean = clean
   \<and> merge_whatsit clean dirt = conflict"
  by (cases X) (simp_all add: merge_whatsit_def)

subsection \<open>Consistency\<close>

text \<open>
  C10. Without the ancient-DNA flag the consistency predicate is symmetric in its two
  characters, whatever bitmap the characters have.
\<close>

theorem consistent_modern_sym:
  "consistent bm False x y = consistent bm False y x"
  by (auto simp: consistent_def and.commute)

subsection \<open>Transversions\<close>

text \<open>
  C3. \<^verbatim>\<open>is_transversion\<close> is described as true exactly for a purine/pyrimidine mismatch, with
  the transitions A-G and C-T/U and every symbol outside A, C, G, T, U giving false. The
  code tests the second base against one transition partner only: with first base C it
  asks for \<open>v \<noteq> T\<close>, so C against U counts as a transversion, though U against C does not;
  and any other second symbol, such as N or the first base itself, counts as one too.
\<close>

theorem is_transversion_second_base:
  "is_transversion (CHR ''C'') (CHR ''U'')
   \<and> \<not> is_transversion (CHR ''U'') (CHR ''C'')
   \<and> \<not> is_transversion (CHR ''C'') (CHR ''T'')
   \<and> is_transversion (CHR ''A'') (CHR ''N'')
   \<and> \<not> is_transversion (CHR ''N'') (CHR ''A'')
   \<and> is_transversion (CHR ''A'') (CHR ''A'')"
  by (simp add: is_transversion_def and_not_32_def)

subsection \<open>The index built by \<^verbatim>\<open>mk_dp_list\<close>\<close>

lemma dp_index_keys: "set (map fst (dp_index k f l)) = insert k (set (map fst l))"
proof (induction l)
  case Nil
  show ?case by simp
next
  case (Cons p l)
  obtain k' d where p: "p = (k', d)" by (cases p)
  from Cons p show ?case by (simp add: insert_commute)
qed

lemma map_of_no_key: "k \<notin> set (map fst l) \<Longrightarrow> map_of l k = None"
  by (simp add: map_of_eq_None_iff)

lemma map_of_below_sorted:
  assumes "sorted_wrt (<) (k' # map fst l)" and "(k::int) \<le> k'"
  shows "map_of l k = None"
proof (rule map_of_no_key)
  from assms(1) have "\<forall>x \<in> set (map fst l). k' < x" by simp
  with assms(2) show "k \<notin> set (map fst l)" by (auto simp del: set_map)
qed

lemma map_of_dp_index:
  "sorted_wrt (<) (map fst l) \<Longrightarrow>
   map_of (dp_index k f l) = (map_of l)(k \<mapsto> f (case map_of l k of None \<Rightarrow> Dp_init | Some d \<Rightarrow> d))"
proof (induction l)
  case Nil
  show ?case by simp
next
  case (Cons p l)
  obtain k' d where p: "p = (k', d)" by (cases p)
  from Cons.prems p have below: "k \<le> k' \<Longrightarrow> map_of l k = None"
    using map_of_below_sorted [of k' l k] by simp
  from Cons p show ?case
    by (auto simp: fun_eq_iff below)
qed

lemma sorted_dp_index:
  "sorted_wrt (<) (map fst l) \<Longrightarrow> sorted_wrt (<) (map fst (dp_index k f l))"
proof (induction l)
  case Nil
  show ?case by simp
next
  case (Cons p l)
  obtain k' d where p: "p = (k', d)" by (cases p)
  have keys: "set (map fst (dp_index k f l)) = insert k (set (map fst l))" by (rule dp_index_keys)
  from Cons p show ?case
    by (auto simp: keys simp del: set_map)
qed

lemma map_of_above_keys:
  "\<forall>k \<in> set (map fst l). k < index \<Longrightarrow> (index::int) \<le> c \<Longrightarrow> map_of l c = None"
  by (rule map_of_no_key) force

lemma dp_scan_lookup:
  "sorted_wrt (<) (map fst l) \<Longrightarrow> \<forall>k \<in> set (map fst l). k < index \<Longrightarrow>
   map_of (dp_scan compatible l index span_to aln1 aln2) c =
     (if c < index then map_of l c
      else if c < span_to \<or> span_to < index
           then column_entry compatible (column_at aln1 aln2 (nat (c - index)))
           else None)"
proof (induction compatible l index span_to aln1 aln2 rule: dp_scan.induct)
  case (1 compatible l index span_to a aln1 b aln2)
  have none: "index \<le> c \<Longrightarrow> map_of l c = None"
    using "1.prems"(2) by (rule map_of_above_keys)
  show ?case
  proof (cases "index = span_to")
    case True
    then show ?thesis using none by simp
  next
    case False
    let ?f = "\<lambda>d. d\<lparr>consensus := a, assembly := b,
                 strength := (if is_strongly_diagnostic compatible a b then strong else weak)\<rparr>"
    let ?l = "if is_weakly_diagnostic a b then dp_index index ?f l else l"
    let ?i = "if b \<noteq> CHR ''-'' then index + 1 else index"
    have s: "sorted_wrt (<) (map fst ?l)"
      using "1.prems"(1) by (simp add: sorted_dp_index)
    have wd: "is_weakly_diagnostic a b \<Longrightarrow> b \<noteq> CHR ''-''"
      by (simp add: is_weakly_diagnostic_def)
    have k: "\<forall>k \<in> set (map fst ?l). k < ?i"
      using "1.prems"(2) wd by (auto simp: dp_index_keys simp del: set_map)
    have IH: "map_of (dp_scan compatible ?l ?i span_to aln1 aln2) c =
     (if c < ?i then map_of ?l c
      else if c < span_to \<or> span_to < ?i
           then column_entry compatible (column_at aln1 aln2 (nat (c - ?i)))
           else None)"
      using "1.IH" [OF False s k] .
    have step: "dp_scan compatible l index span_to (a # aln1) (b # aln2) =
        dp_scan compatible ?l ?i span_to aln1 aln2"
      using False by simp
    have lk: "map_of ?l c = (if is_weakly_diagnostic a b \<and> c = index then Some (?f Dp_init) else map_of l c)"
      using "1.prems"(1) none by (auto simp: map_of_dp_index)
    show ?thesis
    proof (cases "b = CHR ''-''")
      case True
      then have "\<not> is_weakly_diagnostic a b" using wd by blast
      with True IH step show ?thesis by simp
    next
      case nb: False
      show ?thesis
      proof (cases "c < index")
        case True
        with nb IH step lk show ?thesis by simp
      next
        case ge: False
        show ?thesis
        proof (cases "c = index")
          case True
          with nb IH step lk False none show ?thesis
            by (auto simp: column_entry_def Dp_init_def)
        next
          case ne: False
          with ge have gt: "index < c" by simp
          then have n: "nat (c - index) = Suc (nat (c - (index + 1)))" by simp
          from gt nb IH step False show ?thesis
            by (auto simp: n)
        qed
      qed
    qed
  qed
qed (simp_all add: column_entry_def map_of_above_keys)

lemma dp_scan_sorted:
  "sorted_wrt (<) (map fst l) \<Longrightarrow> \<forall>k \<in> set (map fst l). k < index \<Longrightarrow>
   sorted_wrt (<) (map fst (dp_scan compatible l index span_to aln1 aln2))"
proof (induction compatible l index span_to aln1 aln2 rule: dp_scan.induct)
  case (1 compatible l index span_to a aln1 b aln2)
  show ?case
  proof (cases "index = span_to")
    case True
    with "1.prems" show ?thesis by simp
  next
    case False
    let ?f = "\<lambda>d. d\<lparr>consensus := a, assembly := b,
                 strength := (if is_strongly_diagnostic compatible a b then strong else weak)\<rparr>"
    let ?l = "if is_weakly_diagnostic a b then dp_index index ?f l else l"
    let ?i = "if b \<noteq> CHR ''-'' then index + 1 else index"
    have s: "sorted_wrt (<) (map fst ?l)"
      using "1.prems"(1) by (simp add: sorted_dp_index)
    have wd: "is_weakly_diagnostic a b \<Longrightarrow> b \<noteq> CHR ''-''"
      by (simp add: is_weakly_diagnostic_def)
    have k: "\<forall>k \<in> set (map fst ?l). k < ?i"
      using "1.prems"(2) wd by (auto simp: dp_index_keys simp del: set_map)
    from "1.IH" [OF False s k] False show ?thesis by simp
  qed
qed simp_all

lemma skip_to_columns:
  "index \<le> span_from \<Longrightarrow> skip_to index span_from aln1 aln2 = (i', a', b') \<Longrightarrow>
   index \<le> i' \<and> i' \<le> span_from
   \<and> (\<forall>n. column_at a' b' n = column_at aln1 aln2 (n + nat (i' - index)))
   \<and> (i' \<noteq> span_from \<longrightarrow> a' = [] \<or> b' = [])"
proof (induction index span_from aln1 aln2 rule: skip_to.induct)
  case (1 index span_from a aln1 b aln2)
  show ?case
  proof (cases "index = span_from")
    case True
    with "1.prems" show ?thesis by auto
  next
    case False
    let ?i = "if b \<noteq> CHR ''-'' then index + 1 else index"
    from False "1.prems" have le: "?i \<le> span_from" by simp
    from False "1.prems" have sk: "skip_to ?i span_from aln1 aln2 = (i', a', b')" by simp
    note IH = "1.IH" [OF False le sk]
    show ?thesis
    proof (cases "b = CHR ''-''")
      case True
      with IH show ?thesis by simp
    next
      case nb: False
      with IH have "index + 1 \<le> i'" by simp
      then have "\<And>n. n + nat (i' - index) = Suc (n + nat (i' - (index + 1)))" by simp
      with nb IH show ?thesis by simp
    qed
  qed
qed auto

lemma column_at_Nil2: "column_at aln1 [] n = None"
  by (cases aln1) simp_all

lemma mk_dp_list_lookup:
  assumes "0 \<le> span_from"
  shows "map_of (mk_dp_list compatible aln1 aln2 span_from span_to) c =
     (if span_from \<le> c \<and> (c < span_to \<or> span_to < span_from)
      then column_entry compatible (column_at aln1 aln2 (nat c)) else None)"
proof -
  obtain i' a' b' where sk: "skip_to 0 span_from aln1 aln2 = (i', a', b')"
    by (cases "skip_to 0 span_from aln1 aln2")
  note cols = skip_to_columns [OF assms sk]
  have scan: "map_of (dp_scan compatible [] i' span_to a' b') c =
     (if c < i' then None
      else if c < span_to \<or> span_to < i'
           then column_entry compatible (column_at a' b' (nat (c - i'))) else None)"
    using dp_scan_lookup [of "[]" i' compatible span_to a' b' c] by simp
  have mk: "mk_dp_list compatible aln1 aln2 span_from span_to = dp_scan compatible [] i' span_to a' b'"
    by (simp add: mk_dp_list_def sk)
  show ?thesis
  proof (cases "i' = span_from")
    case True
    have "span_from \<le> c \<Longrightarrow> nat (c - span_from) + nat span_from = nat c"
      using assms by simp
    with True cols scan mk show ?thesis by simp
  next
    case False
    with cols have e: "a' = [] \<or> b' = []" by simp
    then have none: "\<And>n. column_at a' b' n = None"
      by (auto simp: column_at_Nil2)
    from e have "dp_scan compatible [] i' span_to a' b' = []"
      by (cases a') auto
    moreover have "span_from \<le> c \<Longrightarrow> column_at aln1 aln2 (nat c) = None"
    proof -
      assume "span_from \<le> c"
      with cols have "i' \<le> c" by linarith
      then have "nat i' \<le> nat c" by simp
      then have "nat c = (nat c - nat i') + nat (i' - 0)" by simp
      with cols none show ?thesis by metis
    qed
    ultimately show ?thesis by (simp add: mk column_entry_def)
  qed
qed

lemma mk_dp_list_sorted:
  "sorted_wrt (<) (map fst (mk_dp_list compatible aln1 aln2 span_from span_to))"
  using dp_scan_sorted [of "[]"] by (simp add: mk_dp_list_def split: prod.splits)

lemma column_entry_no_gap:
  "column_entry compatible col = Some d \<Longrightarrow> consensus d \<noteq> CHR ''-'' \<and> assembly d \<noteq> CHR ''-''"
  by (auto simp: column_entry_def is_weakly_diagnostic_def split: option.splits if_splits)

text \<open>
  C4. For a span with \<open>0 \<le> from \<le> to\<close>, the index holds an entry at assembly coordinate
  \<open>c\<close> exactly when \<open>c\<close> is in \<open>[from, to)\<close> and the column with assembly coordinate \<open>c\<close> is
  weakly diagnostic; the entry holds the two symbols of that column and is strong when the
  column is strongly diagnostic, weak otherwise. The keys increase strictly, so there is
  at most one entry for a coordinate, and no entry holds a gap.
\<close>

theorem mk_dp_list_index:
  assumes "0 \<le> span_from" and "span_from \<le> span_to"
  shows "map_of (mk_dp_list compatible aln1 aln2 span_from span_to) c =
           (if span_from \<le> c \<and> c < span_to
            then column_entry compatible (column_at aln1 aln2 (nat c)) else None)
         \<and> sorted_wrt (<) (map fst (mk_dp_list compatible aln1 aln2 span_from span_to))
         \<and> distinct (map fst (mk_dp_list compatible aln1 aln2 span_from span_to))
         \<and> (\<forall>(k, d) \<in> set (mk_dp_list compatible aln1 aln2 span_from span_to).
               consensus d \<noteq> CHR ''-'' \<and> assembly d \<noteq> CHR ''-'')"
proof -
  let ?l = "mk_dp_list compatible aln1 aln2 span_from span_to"
  have look: "\<And>k. map_of ?l k =
           (if span_from \<le> k \<and> k < span_to
            then column_entry compatible (column_at aln1 aln2 (nat k)) else None)"
    using assms mk_dp_list_lookup [OF assms(1), of compatible aln1 aln2 span_to] by auto
  have srt: "sorted_wrt (<) (map fst ?l)" by (rule mk_dp_list_sorted)
  then have dist: "distinct (map fst ?l)" by (simp add: strict_sorted_iff)
  have gaps: "\<forall>(k, d) \<in> set ?l. consensus d \<noteq> CHR ''-'' \<and> assembly d \<noteq> CHR ''-''"
  proof (clarify)
    fix k d assume "(k, d) \<in> set ?l"
    with dist have "map_of ?l k = Some d" by simp
    with look [of k] have "column_entry compatible (column_at aln1 aln2 (nat k)) = Some d"
      by (simp split: if_splits)
    then show "consensus d \<noteq> CHR ''-'' \<and> assembly d \<noteq> CHR ''-''" by (rule column_entry_no_gap)
  qed
  from look [of c] srt dist gaps show ?thesis by blast
qed

theorem mk_dp_list_index_witness:
  "(0::int) \<le> 1 \<and> (1::int) \<le> 4 \<and>
   map_of (mk_dp_list iupac_compatible ''AC-GNAC'' ''CAT-ACA'' 1 4) 3 =
     Some \<lparr>consensus = CHR ''N'', assembly = CHR ''A'', contaminant = CHR 0x00, strength = weak\<rparr>
   \<and> (3, \<lparr>consensus = CHR ''N'', assembly = CHR ''A'', contaminant = CHR 0x00, strength = weak\<rparr>)
        \<in> set (mk_dp_list iupac_compatible ''AC-GNAC'' ''CAT-ACA'' 1 4)"
  using mk_dp_list_index [of 1 4 iupac_compatible "''AC-GNAC''" "''CAT-ACA''" 3]
  by (simp add: column_entry_def mk_dp_list_def Dp_init_def is_weakly_diagnostic_def
      is_strongly_diagnostic_def iupac_compatible_def iupac_bitmap_def toupper_def and_not_32_def)

text \<open>
  The loop of \<^verbatim>\<open>mk_dp_list\<close> ends on \<^verbatim>\<open>index != span_to\<close>: with \<open>to < from\<close> the test never
  fails and every later column is indexed, here coordinate 1 for the span \<open>[1, 0)\<close>.
\<close>

theorem mk_dp_list_reversed_span:
  "map_of (mk_dp_list iupac_compatible ''AC'' ''CA'' 1 0) 1 =
     Some \<lparr>consensus = CHR ''C'', assembly = CHR ''A'', contaminant = CHR 0x00, strength = strong\<rparr>
   \<and> \<not> ((1::int) \<le> 1 \<and> (1::int) < 0)"
  by (simp add: mk_dp_list_def is_weakly_diagnostic_def is_strongly_diagnostic_def Dp_init_def
      iupac_compatible_def iupac_bitmap_def toupper_def and_not_32_def)
subsection \<open>Pass one: the ratchet\<close>

lemma ratchet_refl: "ratchet d d"
  by (simp add: ratchet_def)

lemma ratchet_trans: "ratchet a b \<Longrightarrow> ratchet b c \<Longrightarrow> ratchet a c"
  by (auto simp: ratchet_def)

lemma ratchet_frozen: "ratchet d d' \<Longrightarrow> strength d \<noteq> weak \<Longrightarrow> d' = d"
  by (auto simp: ratchet_def)

lemma dp_ratchet_refl: "dp_ratchet l l"
  by (simp add: dp_ratchet_def list_all2_refl ratchet_refl)

lemma dp_ratchet_trans:
  assumes "dp_ratchet l l'" and "dp_ratchet l' l''"
  shows "dp_ratchet l l''"
  using assms unfolding dp_ratchet_def
  by (rule list_all2_trans [rotated]) (auto intro: ratchet_trans)

lemma dp_ratchet_keys: "dp_ratchet l l' \<Longrightarrow> map fst l' = map fst l"
  unfolding dp_ratchet_def by (induction l l' rule: list_all2_induct) auto

lemma dp_ratchet_lookup:
  "dp_ratchet l l' \<Longrightarrow> map_of l c = Some d \<Longrightarrow> \<exists>d'. map_of l' c = Some d' \<and> ratchet d d'"
  unfolding dp_ratchet_def
  by (induction l l' rule: list_all2_induct) (auto split: if_splits)

lemma dp_modify_ratchet:
  "(\<And>d. map_of l k = Some d \<Longrightarrow> ratchet d (f d)) \<Longrightarrow> dp_ratchet l (dp_modify k f l)"
proof (induction l)
  case Nil
  show ?case by (simp add: dp_ratchet_def)
next
  case (Cons p l)
  obtain k' d where p: "p = (k', d)" by (cases p)
  show ?case
  proof (cases "k = k'")
    case True
    with Cons.prems p have "ratchet d (f d)" by simp
    with True p dp_ratchet_refl [of l] show ?thesis by (simp add: dp_ratchet_def)
  next
    case False
    with Cons.prems p have "\<And>d. map_of l k = Some d \<Longrightarrow> ratchet d (f d)" by simp
    then have "dp_ratchet l (dp_modify k f l)" by (rule Cons.IH)
    with False p show ?thesis by (simp add: dp_ratchet_def ratchet_refl)
  qed
qed

lemma map_of_dp_modify:
  "map_of (dp_modify k f l) c = (if c = k then map_option f (map_of l k) else map_of l c)"
  by (induction l) auto

lemma pass1_evidence_ratchet: "dp_ratchet l (pass1_evidence bm adna ass_pos fr fa l)"
proof -
  have "dp_ratchet l (dp_modify ass_pos (\<lambda>d. d\<lparr>contaminant := fr, strength := effective\<rparr>) l)"
    if "map_of l ass_pos = Some d" "strength d = weak" for d
    using that by (intro dp_modify_ratchet) (simp add: ratchet_def)
  then show ?thesis
    by (auto simp: pass1_evidence_def Let_def dp_ratchet_refl split: option.splits)
qed

lemma pass1_evidence_cause:
  "pass1_evidence bm adna ass_pos fr fa l \<noteq> l \<Longrightarrow>
   \<exists>d. map_of l ass_pos = Some d \<and> strength d = weak \<and> fr = fa
       \<and> \<not> consistent bm adna (assembly d) fa \<and> consistent bm adna (consensus d) fr"
  by (auto simp: pass1_evidence_def Let_def split: option.splits if_splits)

lemma walk_invariant:
  "(\<And>pos fr fa s. P s \<Longrightarrow> P (visit pos fr fa s)) \<Longrightarrow> P st \<Longrightarrow>
   P (walk visit end1 ass_pos paln1 paln2 in_ref in_frag_v_ref in_ass in_frag_v_ass st)"
proof (induction visit end1 ass_pos paln1 paln2 in_ref in_frag_v_ref in_ass in_frag_v_ass st
    rule: walk.induct)
  case (1 visit end1 ass_pos p1 paln1 p2 paln2 in_ref in_frag_v_ref in_ass in_frag_v_ass st)
  show ?case
  proof (cases "ass_pos \<noteq> end1 \<and> in_ref \<noteq> [] \<and> in_ass \<noteq> [] \<and> in_frag_v_ass \<noteq> [] \<and> in_frag_v_ref \<noteq> []")
    case True
    let ?st = "if is_weakly_diagnostic p1 p2
               then visit ass_pos (hd in_frag_v_ref) (hd in_frag_v_ass) st else st"
    have "P ?st" using "1.prems" by simp
    with "1.IH" [OF True refl refl refl] "1.prems"(1) True show ?thesis
      by (simp add: Let_def)
  next
    case False
    with "1.prems"(2) show ?thesis by auto
  qed
qed simp_all

lemma pass1_frag_ratchet: "dp_ratchet l (fst (pass1_frag bm adna mia aln_con aln_ass ref s l))"
proof -
  have "dp_ratchet l (walk (pass1_evidence bm adna) e p a b r fr ia fa l)" for e p a b r fr ia fa
    by (rule walk_invariant [where P = "dp_ratchet l"])
       (auto intro: dp_ratchet_trans pass1_evidence_ratchet dp_ratchet_refl)
  then show ?thesis
    by (simp add: pass1_frag_def Let_def split: prod.splits)
qed

lemma fst_pass1_Cons:
  "fst (pass1 bm adna mia aln_con aln_ass ref (s # ss) l) =
   fst (pass1 bm adna mia aln_con aln_ass ref ss
          (fst (pass1_frag bm adna mia aln_con aln_ass ref s l)))"
  by (simp split: prod.splits)

lemma pass1_ratchet: "dp_ratchet l (fst (pass1 bm adna mia aln_con aln_ass ref frags l))"
proof (induction frags arbitrary: l)
  case Nil
  show ?case by (simp add: dp_ratchet_refl)
next
  case (Cons s ss)
  have "dp_ratchet l (fst (pass1_frag bm adna mia aln_con aln_ass ref s l))"
    by (rule pass1_frag_ratchet)
  moreover have "dp_ratchet (fst (pass1_frag bm adna mia aln_con aln_ass ref s l))
     (fst (pass1 bm adna mia aln_con aln_ass ref ss (fst (pass1_frag bm adna mia aln_con aln_ass ref s l))))"
    by (rule Cons.IH)
  ultimately show ?case
    unfolding fst_pass1_Cons by (rule dp_ratchet_trans)
qed

lemma pass1_append:
  "fst (pass1 bm adna mia aln_con aln_ass ref (earlier @ later) l) =
   fst (pass1 bm adna mia aln_con aln_ass ref later
          (fst (pass1 bm adna mia aln_con aln_ass ref earlier l)))"
proof (induction earlier arbitrary: l)
  case Nil
  show ?case by simp
next
  case (Cons s ss)
  show ?case unfolding append_Cons fst_pass1_Cons by (rule Cons.IH)
qed

lemma pass1_evidence_lookup:
  "map_of (pass1_evidence bm adna ass_pos fr fa l) c =
     (case map_of l c of
        None \<Rightarrow> None
      | Some d \<Rightarrow>
          if c = ass_pos \<and> strength d = weak \<and> fr = fa
             \<and> \<not> consistent bm adna (assembly d) fa \<and> consistent bm adna (consensus d) fr
          then Some (d\<lparr>contaminant := fr, strength := effective\<rparr>)
          else Some d)"
  by (auto simp: pass1_evidence_def Let_def map_of_dp_modify split: option.splits)

text \<open>
  C5. In pass one a diagnostic position only ever changes from weak to effective. Over any
  run of fragments the keys of the index stay as they are and every entry either stays as
  it is or was weak and is now effective, with the same consensus and assembly bases; an
  entry that is no longer weak after some fragments is the very same entry after any
  further fragments, so its strength does not revert and its contaminant base is not
  overwritten; and a visit changes the index only at a weak entry, on agreeing calls
  that are inconsistent with the assembly and consistent with the consensus, setting the
  contaminant base to the call. Conversely such evidence at a weak entry always performs
  the upgrade: after a visit the entry at the visited coordinate is the upgraded one
  exactly when it was weak and the evidence qualifies, and every other entry is as before.
  So the base that is kept is that of the first qualifying evidence.
\<close>

theorem pass1_one_way_ratchet:
  "map fst (fst (pass1 bm adna mia aln_con aln_ass ref frags l)) = map fst l
   \<and> (\<forall>c d. map_of l c = Some d \<longrightarrow>
         (\<exists>d'. map_of (fst (pass1 bm adna mia aln_con aln_ass ref frags l)) c = Some d'
               \<and> (d' = d \<or> (strength d = weak \<and> strength d' = effective
                     \<and> consensus d' = consensus d \<and> assembly d' = assembly d))))
   \<and> (\<forall>c d. map_of (fst (pass1 bm adna mia aln_con aln_ass ref frags l)) c = Some d
             \<and> strength d \<noteq> weak \<longrightarrow>
         map_of (fst (pass1 bm adna mia aln_con aln_ass ref (frags @ later) l)) c = Some d)
   \<and> (pass1_evidence bm adna ass_pos fr fa l \<noteq> l \<longrightarrow>
         (\<exists>d. map_of l ass_pos = Some d \<and> strength d = weak \<and> fr = fa
              \<and> \<not> consistent bm adna (assembly d) fa \<and> consistent bm adna (consensus d) fr
              \<and> map_of (pass1_evidence bm adna ass_pos fr fa l) ass_pos
                  = Some (d\<lparr>contaminant := fr, strength := effective\<rparr>)))
   \<and> (\<forall>c. map_of (pass1_evidence bm adna ass_pos fr fa l) c =
           (case map_of l c of
              None \<Rightarrow> None
            | Some d \<Rightarrow>
                if c = ass_pos \<and> strength d = weak \<and> fr = fa
                   \<and> \<not> consistent bm adna (assembly d) fa \<and> consistent bm adna (consensus d) fr
                then Some (d\<lparr>contaminant := fr, strength := effective\<rparr>)
                else Some d))"
proof -
  let ?l1 = "fst (pass1 bm adna mia aln_con aln_ass ref frags l)"
  let ?l2 = "fst (pass1 bm adna mia aln_con aln_ass ref (frags @ later) l)"
  have r1: "dp_ratchet l ?l1" by (rule pass1_ratchet)
  have r2: "dp_ratchet ?l1 ?l2" unfolding pass1_append by (rule pass1_ratchet)
  have keys: "map fst ?l1 = map fst l" using r1 by (rule dp_ratchet_keys)
  have change: "\<forall>c d. map_of l c = Some d \<longrightarrow>
         (\<exists>d'. map_of ?l1 c = Some d'
               \<and> (d' = d \<or> (strength d = weak \<and> strength d' = effective
                     \<and> consensus d' = consensus d \<and> assembly d' = assembly d)))"
    using dp_ratchet_lookup [OF r1] by (simp add: ratchet_def)
  have frozen: "\<forall>c d. map_of ?l1 c = Some d \<and> strength d \<noteq> weak \<longrightarrow> map_of ?l2 c = Some d"
  proof (intro allI impI)
    fix c d assume a: "map_of ?l1 c = Some d \<and> strength d \<noteq> weak"
    with dp_ratchet_lookup [OF r2] obtain d' where "map_of ?l2 c = Some d'" "ratchet d d'"
      by blast
    with a show "map_of ?l2 c = Some d" using ratchet_frozen by blast
  qed
  have cause: "pass1_evidence bm adna ass_pos fr fa l \<noteq> l \<longrightarrow>
         (\<exists>d. map_of l ass_pos = Some d \<and> strength d = weak \<and> fr = fa
              \<and> \<not> consistent bm adna (assembly d) fa \<and> consistent bm adna (consensus d) fr
              \<and> map_of (pass1_evidence bm adna ass_pos fr fa l) ass_pos
                  = Some (d\<lparr>contaminant := fr, strength := effective\<rparr>))"
    by (auto simp: pass1_evidence_def Let_def map_of_dp_modify split: option.splits if_splits)
  have upgrade: "\<forall>c. map_of (pass1_evidence bm adna ass_pos fr fa l) c =
           (case map_of l c of
              None \<Rightarrow> None
            | Some d \<Rightarrow>
                if c = ass_pos \<and> strength d = weak \<and> fr = fa
                   \<and> \<not> consistent bm adna (assembly d) fa \<and> consistent bm adna (consensus d) fr
                then Some (d\<lparr>contaminant := fr, strength := effective\<rparr>)
                else Some d)"
    by (rule allI) (rule pass1_evidence_lookup)
  from keys change frozen cause upgrade show ?thesis by blast
qed

theorem pass1_one_way_ratchet_witness:
  "map_of [(1, \<lparr>consensus = CHR ''N'', assembly = CHR ''A'', contaminant = CHR 0x00, strength = weak\<rparr>)] 1
     = Some \<lparr>consensus = CHR ''N'', assembly = CHR ''A'', contaminant = CHR 0x00, strength = weak\<rparr>
   \<and> map_of (fst (pass1 iupac_bitmap False ungapped_mia ''ANGT'' ''AAGT'' ''AAGT''
        [example_read ''r1'' (CHR ''a'') ''ACGT'']
        [(1, \<lparr>consensus = CHR ''N'', assembly = CHR ''A'', contaminant = CHR 0x00, strength = weak\<rparr>)])) 1
     = Some \<lparr>consensus = CHR ''N'', assembly = CHR ''A'', contaminant = CHR ''C'', strength = effective\<rparr>
   \<and> map_of (fst (pass1 iupac_bitmap False ungapped_mia ''ANGT'' ''AAGT'' ''AAGT''
        ([example_read ''r1'' (CHR ''a'') ''ACGT''] @ [example_read ''r2'' (CHR ''a'') ''AGGT''])
        [(1, \<lparr>consensus = CHR ''N'', assembly = CHR ''A'', contaminant = CHR 0x00, strength = weak\<rparr>)])) 1
     = Some \<lparr>consensus = CHR ''N'', assembly = CHR ''A'', contaminant = CHR ''C'', strength = effective\<rparr>
   \<and> map_of (fst (pass1 iupac_bitmap False ungapped_mia ''ANGT'' ''AAGT'' ''AAGT''
        ([example_read ''r2'' (CHR ''a'') ''AGGT''] @ [example_read ''r1'' (CHR ''a'') ''ACGT''])
        [(1, \<lparr>consensus = CHR ''N'', assembly = CHR ''A'', contaminant = CHR 0x00, strength = weak\<rparr>)])) 1
     = Some \<lparr>consensus = CHR ''N'', assembly = CHR ''A'', contaminant = CHR ''G'', strength = effective\<rparr>
   \<and> map_of (pass1_evidence iupac_bitmap False 1 (CHR ''G'') (CHR ''G'')
        [(1, \<lparr>consensus = CHR ''N'', assembly = CHR ''A'', contaminant = CHR 0x00, strength = weak\<rparr>)]) 1
     = Some \<lparr>consensus = CHR ''N'', assembly = CHR ''A'', contaminant = CHR ''G'', strength = effective\<rparr>"
  using pass1_one_way_ratchet [of iupac_bitmap False ungapped_mia "''ANGT''" "''AAGT''" "''AAGT''"
      "[example_read ''r1'' (CHR ''a'') ''ACGT'']"
      "[(1, \<lparr>consensus = CHR ''N'', assembly = CHR ''A'', contaminant = CHR 0x00, strength = weak\<rparr>)]"
      "[example_read ''r2'' (CHR ''a'') ''AGGT'']" 1 "CHR ''C''" "CHR ''C''"]
    pass1_one_way_ratchet [of iupac_bitmap False ungapped_mia "''ANGT''" "''AAGT''" "''AAGT''"
      "[example_read ''r2'' (CHR ''a'') ''AGGT'']"
      "[(1, \<lparr>consensus = CHR ''N'', assembly = CHR ''A'', contaminant = CHR 0x00, strength = weak\<rparr>)]"
      "[example_read ''r1'' (CHR ''a'') ''ACGT'']" 1 "CHR ''G''" "CHR ''G''"]
  by (simp add: pass1_frag_def lift_over_def ref_for_mia_def ungapped_mia_def substr0_def
      pass1_evidence_def consistent_def iupac_bitmap_def is_weakly_diagnostic_def toupper_def
      and_not_32_def example_read_def Let_def)

subsection \<open>The pruning of weak positions\<close>

lemma prune_weak_filter: "prune_weak l = filter (\<lambda>(k, d). strength d \<noteq> weak) l"
  by (induction l) auto

lemma not_weak: "s \<noteq> weak \<longleftrightarrow> s = strong \<or> s = effective"
  by (cases s) simp_all

text \<open>
  C6. The pruning keeps exactly the entries that are not weak, so every entry left is
  strong or effective. The index that \<^verbatim>\<open>main\<close> has after the pruning is this pruned index;
  pass two reads it and never assigns to it, and it is the index of the report.
\<close>

theorem no_weak_after_pruning:
  "prune_weak l = filter (\<lambda>(k, d). strength d \<noteq> weak) l
   \<and> (\<forall>(k, d) \<in> set (prune_weak l). strength d = strong \<or> strength d = effective)
   \<and> fst (classify bm mia cfg aln_con aln_ass ref frags l) =
       prune_weak (fst (pass1 bm (opt_adna cfg) mia aln_con aln_ass ref frags l))
   \<and> snd (classify bm mia cfg aln_con aln_ass ref frags l) =
       (let t = pass2 bm (opt_adna cfg) (opt_min_diag_posns cfg) aln_con aln_ass ref
                  (fst (classify bm mia cfg aln_con aln_ass ref frags l)) (map fixup frags)
                  (snd (pass1 bm (opt_adna cfg) mia aln_con aln_ass ref frags l)) no_tallies
        in (summary t, summary2 t))
   \<and> (\<forall>(k, d) \<in> set (fst (classify bm mia cfg aln_con aln_ass ref frags l)).
         strength d = strong \<or> strength d = effective)"
proof -
  have a: "\<forall>(k, d) \<in> set (prune_weak l'). strength d = strong \<or> strength d = effective" for l'
    by (auto simp: prune_weak_filter not_weak)
  have b: "fst (classify bm mia cfg aln_con aln_ass ref frags l) =
       prune_weak (fst (pass1 bm (opt_adna cfg) mia aln_con aln_ass ref frags l))"
    by (simp add: classify_def Let_def split: prod.splits)
  have c: "snd (classify bm mia cfg aln_con aln_ass ref frags l) =
       (let t = pass2 bm (opt_adna cfg) (opt_min_diag_posns cfg) aln_con aln_ass ref
                  (fst (classify bm mia cfg aln_con aln_ass ref frags l)) (map fixup frags)
                  (snd (pass1 bm (opt_adna cfg) mia aln_con aln_ass ref frags l)) no_tallies
        in (summary t, summary2 t))"
    by (simp add: classify_def Let_def split: prod.splits)
  from a [of l] a [of "fst (pass1 bm (opt_adna cfg) mia aln_con aln_ass ref frags l)"] b c
  show ?thesis by (simp only: prune_weak_filter [symmetric] simp_thms)
qed

theorem no_weak_after_pruning_witness:
  "prune_weak
     [(1, \<lparr>consensus = CHR ''N'', assembly = CHR ''A'', contaminant = CHR 0x00, strength = weak\<rparr>),
      (2, \<lparr>consensus = CHR ''N'', assembly = CHR ''G'', contaminant = CHR ''C'', strength = effective\<rparr>),
      (5, \<lparr>consensus = CHR ''T'', assembly = CHR ''A'', contaminant = CHR 0x00, strength = strong\<rparr>)]
   = [(2, \<lparr>consensus = CHR ''N'', assembly = CHR ''G'', contaminant = CHR ''C'', strength = effective\<rparr>),
      (5, \<lparr>consensus = CHR ''T'', assembly = CHR ''A'', contaminant = CHR 0x00, strength = strong\<rparr>)]
   \<and> fst (classify iupac_bitmap ungapped_mia (example_config True) ''ANGT'' ''AAGA'' ''AAGA''
        [example_read ''r1'' (CHR ''a'') ''ACGT'']
        (mk_dp_list iupac_compatible ''ANGT'' ''AAGA'' 0 2147483647))
   = [(1, \<lparr>consensus = CHR ''N'', assembly = CHR ''A'', contaminant = CHR ''C'', strength = effective\<rparr>),
      (3, \<lparr>consensus = CHR ''T'', assembly = CHR ''A'', contaminant = CHR 0x00, strength = strong\<rparr>)]"
  using no_weak_after_pruning [of
     "[(1, \<lparr>consensus = CHR ''N'', assembly = CHR ''A'', contaminant = CHR 0x00, strength = weak\<rparr>),
      (2, \<lparr>consensus = CHR ''N'', assembly = CHR ''G'', contaminant = CHR ''C'', strength = effective\<rparr>),
      (5, \<lparr>consensus = CHR ''T'', assembly = CHR ''A'', contaminant = CHR 0x00, strength = strong\<rparr>)]"
     iupac_bitmap ungapped_mia "example_config True" "''ANGT''" "''AAGA''" "''AAGA''"
     "[example_read ''r1'' (CHR ''a'') ''ACGT'']"]
    no_weak_after_pruning [of "mk_dp_list iupac_compatible ''ANGT'' ''AAGA'' 0 2147483647"
     iupac_bitmap ungapped_mia "example_config True" "''ANGT''" "''AAGA''" "''AAGA''"
     "[example_read ''r1'' (CHR ''a'') ''ACGT'']"]
  by (simp add: pass1_frag_def lift_over_def ref_for_mia_def ungapped_mia_def substr0_def
      pass1_evidence_def consistent_def iupac_bitmap_def iupac_compatible_def
      is_weakly_diagnostic_def is_strongly_diagnostic_def toupper_def and_not_32_def
      example_read_def example_config_def mk_dp_list_def Dp_init_def Let_def)

subsection \<open>The safety floor\<close>

text \<open>
  C9. Once the references are aligned, fewer than 40 strongly diagnostic positions without
  the override end the run with a non-zero exit status, and no pass is run; with the
  override (and sane references) the run goes on to pass one, the pruning and pass two
  whatever the count.
\<close>

theorem low_evidence_stops:
  assumes "myers hum_ref ref
             (if opt_maxd cfg = 0 then max (int (length hum_ref)) (int (length ref)) div 10
              else opt_maxd cfg) = Some (aln_con, aln_ass)"
  shows "(num_strong (mk_dp_list compatible aln_con aln_ass (opt_span_from cfg) (opt_span_to cfg)) < 40
          \<and> \<not> opt_really cfg \<longrightarrow>
            (\<exists>e. process_file compatible bm mia myers cfg hum_ref ref frags = Inl e
                 \<and> exit_status e \<noteq> 0))
       \<and> (num_strong (mk_dp_list compatible aln_con aln_ass (opt_span_from cfg) (opt_span_to cfg)) < 40
          \<and> \<not> opt_really cfg \<and> sanity_check_sequence hum_ref \<and> sanity_check_sequence ref \<longrightarrow>
            process_file compatible bm mia myers cfg hum_ref ref frags = Inl Low_evidence)
       \<and> (opt_really cfg \<and> sanity_check_sequence hum_ref \<and> sanity_check_sequence ref \<longrightarrow>
            process_file compatible bm mia myers cfg hum_ref ref frags =
              Inr (classify bm mia cfg aln_con aln_ass ref frags
                     (mk_dp_list compatible aln_con aln_ass (opt_span_from cfg) (opt_span_to cfg))))"
  using assms by (simp add: process_file_def Let_def)

theorem low_evidence_stops_witness:
  "ungapped_myers ''ACGTACGT'' ''ACGAACGT'' 0 = Some (''ACGTACGT'', ''ACGAACGT'')
   \<and> num_strong (mk_dp_list iupac_compatible ''ACGTACGT'' ''ACGAACGT'' 0 2147483647) = 1
   \<and> process_file iupac_compatible iupac_bitmap ungapped_mia ungapped_myers (example_config False)
        ''ACGTACGT'' ''ACGAACGT'' [example_read ''r1'' (CHR ''a'') ''ACGTACGT''] = Inl Low_evidence
   \<and> exit_status Low_evidence = 1
   \<and> process_file iupac_compatible iupac_bitmap ungapped_mia ungapped_myers (example_config True)
        ''ACGTACGT'' ''ACGAACGT'' [example_read ''r1'' (CHR ''a'') ''ACGTACGT''] =
       Inr (classify iupac_bitmap ungapped_mia (example_config True) ''ACGTACGT'' ''ACGAACGT'' ''ACGAACGT''
              [example_read ''r1'' (CHR ''a'') ''ACGTACGT'']
              (mk_dp_list iupac_compatible ''ACGTACGT'' ''ACGAACGT'' 0 2147483647))"
  using low_evidence_stops [of ungapped_myers "''ACGTACGT''" "''ACGAACGT''" "example_config False"
      "''ACGTACGT''" "''ACGAACGT''" iupac_compatible iupac_bitmap ungapped_mia
      "[example_read ''r1'' (CHR ''a'') ''ACGTACGT'']"]
    low_evidence_stops [of ungapped_myers "''ACGTACGT''" "''ACGAACGT''" "example_config True"
      "''ACGTACGT''" "''ACGAACGT''" iupac_compatible iupac_bitmap ungapped_mia
      "[example_read ''r1'' (CHR ''a'') ''ACGTACGT'']"]
  by (simp add: ungapped_myers_def example_config_def sanity_check_sequence_def toupper_def
      and_not_32_def num_strong_def mk_dp_list_def is_weakly_diagnostic_def Dp_init_def
      is_strongly_diagnostic_def iupac_compatible_def iupac_bitmap_def)

subsection \<open>Pass two: the two tallies\<close>

lemma update_class_both: "update_class kv True True = kv"
  by (cases kv) (simp add: update_class_def)

lemma update_class_clean_only:
  "update_class (klass, votes) True False =
     (if klass = unknown then clean else if klass = dirt then conflict else klass, votes + 1)"
  by (simp add: update_class_def)

text \<open>
  C1 (as the code has it). At a diagnostic position that is still in the index and where
  the two calls of the fragment agree, the tally over all positions is updated with the
  pair (\<open>maybe_clean\<close>, \<open>maybe_dirt \<and> \<not> maybe_clean\<close>) and the strong-only tally, at strong
  positions only, with (\<open>maybe_clean\<close>, \<open>maybe_dirt\<close>). Where both predicates are true the
  strong-only tally keeps its class and its votes, and the tally over all positions takes
  the position as evidence for clean: one more vote, unknown becomes clean and
  contaminant becomes conflicting.
\<close>

theorem pass2_evidence_tallies:
  assumes "map_of l ass_pos = Some d" and "fr = fa"
  shows "pass2_evidence bm adna l ass_pos fr fa (t, t2) =
           (if strength d = strong
            then update_class t (consistent bm adna (assembly d) fa) (consistent bm adna (consensus d) fr)
            else t,
            update_class t2 (consistent bm adna (assembly d) fa)
              (consistent bm adna (consensus d) fr \<and> \<not> consistent bm adna (assembly d) fa))
         \<and> (consistent bm adna (assembly d) fa \<and> consistent bm adna (consensus d) fr \<longrightarrow>
              pass2_evidence bm adna l ass_pos fr fa (t, (klass2, votes2)) =
                (t, (if klass2 = unknown then clean else if klass2 = dirt then conflict else klass2,
                     votes2 + 1)))"
  using assms
  by (simp add: pass2_evidence_def Let_def update_class_both update_class_clean_only)

theorem pass2_evidence_tallies_witness:
  "map_of [(1, \<lparr>consensus = CHR ''N'', assembly = CHR ''A'', contaminant = CHR ''C'', strength = effective\<rparr>)] 1
     = Some \<lparr>consensus = CHR ''N'', assembly = CHR ''A'', contaminant = CHR ''C'', strength = effective\<rparr>
   \<and> consistent iupac_bitmap False (CHR ''A'') (CHR ''A'')
   \<and> consistent iupac_bitmap False (CHR ''N'') (CHR ''A'')
   \<and> pass2_evidence iupac_bitmap False
        [(1, \<lparr>consensus = CHR ''N'', assembly = CHR ''A'', contaminant = CHR ''C'', strength = effective\<rparr>)]
        1 (CHR ''A'') (CHR ''A'') ((unknown, 0), (dirt, 1)) = ((unknown, 0), (conflict, 2))"
  using pass2_evidence_tallies [of
      "[(1, \<lparr>consensus = CHR ''N'', assembly = CHR ''A'', contaminant = CHR ''C'', strength = effective\<rparr>)]"
      1 "\<lparr>consensus = CHR ''N'', assembly = CHR ''A'', contaminant = CHR ''C'', strength = effective\<rparr>"
      "CHR ''A''" "CHR ''A''" iupac_bitmap False "(unknown, 0)" "(dirt, 1)" dirt 1]
  by (simp add: consistent_def iupac_bitmap_def and_not_32_def update_class_def)

text \<open>
  The claim as it was stated fails: at a strong position where the call \<^verbatim>\<open>N\<close> is consistent
  with both bases, the tally over all positions goes from unknown with no vote to clean
  with one vote.
\<close>

theorem pass2_both_consistent_counts_clean:
  "map_of [(0, \<lparr>consensus = CHR ''A'', assembly = CHR ''C'', contaminant = CHR 0x00, strength = strong\<rparr>)] 0
     = Some \<lparr>consensus = CHR ''A'', assembly = CHR ''C'', contaminant = CHR 0x00, strength = strong\<rparr>
   \<and> consistent iupac_bitmap False (CHR ''C'') (CHR ''N'')
   \<and> consistent iupac_bitmap False (CHR ''A'') (CHR ''N'')
   \<and> pass2_evidence iupac_bitmap False
        [(0, \<lparr>consensus = CHR ''A'', assembly = CHR ''C'', contaminant = CHR 0x00, strength = strong\<rparr>)]
        0 (CHR ''N'') (CHR ''N'') ((unknown, 0), (unknown, 0)) = ((unknown, 0), (clean, 1))"
  by (simp add: pass2_evidence_def update_class_def consistent_def iupac_bitmap_def and_not_32_def)

subsection \<open>Front and back halves\<close>

text \<open>
  C2. A front half is to be merged, in each tally, with the back half's record of that same
  tally. The code merges both tallies with the record of the strong-only tally
  (\<^verbatim>\<open>i->second\<close> where \<^verbatim>\<open>i2->second\<close> is meant): a back half that is clean with 2 votes in
  the tally over all positions and unclassified in the strong-only one, merged with a
  front half that is contaminant with 1 vote, stays contaminant with 1 vote, where the
  merge rule gives conflicting with 3 votes; the fragment is then counted as contaminant.
  When the two records of the back half are equal the result is as described.
\<close>

theorem front_merge_second_tally:
  "front_merge (Some (bklass, bvotes)) (Some (bklass2, bvotes2)) ((klass, votes), (klass2, votes2)) =
     ((merge_whatsit klass bklass, votes + bvotes), (merge_whatsit klass2 bklass, votes2 + bvotes))
   \<and> front_merge (Some (unknown, 0)) (Some (clean, 2)) ((unknown, 0), (dirt, 1)) =
       ((unknown, 0), (dirt, 1))
   \<and> (merge_whatsit dirt clean, (1::int) + 2) = (conflict, 3)
   \<and> front_merge (Some (clean, 2)) (Some (clean, 2)) ((dirt, 1), (dirt, 1)) =
       ((conflict, 3), (conflict, 3))
   \<and> summary2
        (segment_switch
           (segment_switch no_tallies (example_read ''r1'' (CHR ''b'') ''ACGT'')
              ((unknown, 0), (clean, 2)))
           (example_read ''r1'' (CHR ''f'') ''ACGT'') ((unknown, 0), (dirt, 1))) dirt = 1
   \<and> summary2
        (segment_switch
           (segment_switch no_tallies (example_read ''r1'' (CHR ''b'') ''ACGT'')
              ((unknown, 0), (clean, 2)))
           (example_read ''r1'' (CHR ''f'') ''ACGT'') ((unknown, 0), (dirt, 1))) conflict = 0"
  by (simp add: front_merge_def merge_whatsit_def segment_switch_def count_fragment_def
      no_tallies_def example_read_def)

end
